theory Spec2Isabelle
  imports Main
begin

section \<open>Python values as they come out of the JSON reader\<close>

text \<open>
  \<^verbatim>\<open>json.load\<close> produces values of seven Python classes. A dictionary keeps its
  keys in insertion order, so it is an association list (keys are distinct in any
  dictionary Python builds). The payload of a float is the literal of the file: the
  code paths below only ever look at the class of such a value.
\<close>

datatype json =
    JNull
  | JBool bool
  | JInt int
  | JFloat string
  | JStr string
  | JList "json list"
  | JDict "(string \<times> json) list"

type_synonym dict = "(string \<times> json) list"

text \<open>The classes \<^verbatim>\<open>type(v)\<close> can return on such a value.\<close>

datatype pytype = TNone | TBool | TInt | TFloat | TStr | TList | TDict

fun type_of :: "json \<Rightarrow> pytype" where
  "type_of JNull = TNone"
| "type_of (JBool b) = TBool"
| "type_of (JInt i) = TInt"
| "type_of (JFloat f) = TFloat"
| "type_of (JStr s) = TStr"
| "type_of (JList xs) = TList"
| "type_of (JDict d) = TDict"

text \<open>
  The exceptions the modelled code can raise. \<open>OutsideModel\<close> is not a Python exception:
  it marks the values on which Python would go on computing with floats or with numbers
  as dictionary keys, which this development does not cover. No theorem below rests on it.
\<close>

datatype py_error = AttributeError | KeyError | TypeError | ValueError | OutsideModel

definition keys :: "dict \<Rightarrow> string list" where
  "keys d = map fst d"

text \<open>\<^verbatim>\<open>entry[key]\<close> for a string key: only a dictionary can be subscripted by a string.\<close>

fun getitem :: "json \<Rightarrow> string \<Rightarrow> py_error + json" where
  "getitem (JDict d) k = (case map_of d k of None \<Rightarrow> Inl KeyError | Some v \<Rightarrow> Inr v)"
| "getitem _ k = Inl TypeError"

text \<open>\<^verbatim>\<open>d[k] = v\<close>: an existing key keeps its position, a new key goes last.\<close>

fun setitem :: "dict \<Rightarrow> string \<Rightarrow> json \<Rightarrow> dict" where
  "setitem [] k v = [(k, v)]"
| "setitem ((k', v') # d) k v = (if k' = k then (k', v) # d else (k', v') # setitem d k v)"

section \<open>Decimal rendering of integers\<close>

definition digit_char :: "nat \<Rightarrow> char" where
  "digit_char n = ''0123456789'' ! (n mod 10)"

fun str_nat :: "nat \<Rightarrow> string" where
  "str_nat n = (if n < 10 then [digit_char n] else str_nat (n div 10) @ [digit_char (n mod 10)])"

declare str_nat.simps [simp del]

text \<open>\<^verbatim>\<open>str(i)\<close>, which is also what an f-string writes for an integer.\<close>

definition str_int :: "int \<Rightarrow> string" where
  "str_int i = (if i < 0 then CHR ''-'' # str_nat (nat (- i)) else str_nat (nat i))"

section \<open>Durations\<close>

text \<open>
  \<^verbatim>\<open>ms_to_min\<close> (lines 141-152). Python's \<^verbatim>\<open>//\<close> and \<^verbatim>\<open>%\<close> round towards minus
  infinity, as \<open>div\<close> and \<open>mod\<close> on \<open>int\<close> do; Python integers are unbounded.
\<close>

definition ms_to_min :: "int \<Rightarrow> string" where
  "ms_to_min ms =
     (let mins = ms div 60000;
          sec = (ms mod 60000) div 1000
      in str_int mins @ ''m '' @ str_int sec @ ''s'')"

section \<open>Validation\<close>

text \<open>The constant \<^verbatim>\<open>TEMPLATE\<close> (line 57): a list holding one dictionary.\<close>

definition TEMPLATE :: "dict list" where
  "TEMPLATE = [[(''endTime'', JStr []), (''artistName'', JStr []),
                (''trackName'', JStr []), (''msPlayed'', JInt 0)]]"

text \<open>
  What a run of the validator leaves behind: the messages it hands to the logger, and
  one \<open>Compared\<close> mark for each evaluation of the class comparison of line 108, with the
  index of the entry and the key compared.
\<close>

datatype level = INFO | ERROR

datatype event = Log level string | Compared nat string

text \<open>\<^verbatim>\<open>str(type(v))\<close>, as the message of lines 109-111 prints it.\<close>

fun type_name :: "pytype \<Rightarrow> string" where
  "type_name TNone = ''NoneType''"
| "type_name TBool = ''bool''"
| "type_name TInt = ''int''"
| "type_name TFloat = ''float''"
| "type_name TStr = ''str''"
| "type_name TList = ''list''"
| "type_name TDict = ''dict''"

definition str_type :: "pytype \<Rightarrow> string" where
  "str_type t = ''<class '' @ [CHR 0x27] @ type_name t @ [CHR 0x27] @ ''>''"

definition keys_message :: "nat \<Rightarrow> string" where
  "keys_message index = ''Entry '' @ str_nat index @ '' keys do not match template keys.''"

definition type_message :: "nat \<Rightarrow> string \<Rightarrow> pytype \<Rightarrow> pytype \<Rightarrow> string" where
  "type_message index key expected received =
     ''Entry '' @ str_nat index @ '' key '' @ [CHR 0x27] @ key @ [CHR 0x27] @
     '' type mismatch (Expected '' @ [CHR 0x27] @ str_type expected @ [CHR 0x27] @
     '', Recieved '' @ [CHR 0x27] @ str_type received @ [CHR 0x27] @ '').''"

text \<open>
  The inner loop, lines 107-112, over the template's keys in the order \<open>ks\<close>. The result
  \<open>Inr True\<close> says that the loop ran to its end, \<open>Inr False\<close> that line 112 returned.
  The source iterates over a \<^verbatim>\<open>set\<close>, whose order Python does not fix; the
  statements about this loop hold for every order \<open>ks\<close>.
\<close>

fun check_types :: "nat \<Rightarrow> dict \<Rightarrow> dict \<Rightarrow> string list \<Rightarrow> (py_error + bool) \<times> event list" where
  "check_types index entry t0 [] = (Inr True, [])"
| "check_types index entry t0 (key # ks) =
     (case map_of entry key of
        None \<Rightarrow> (Inl KeyError, [])
      | Some v \<Rightarrow>
          (case map_of t0 key of
             None \<Rightarrow> (Inl KeyError, [])
           | Some tv \<Rightarrow>
               if type_of v \<noteq> type_of tv
               then (Inr False,
                     [Compared index key,
                      Log ERROR (type_message index key (type_of tv) (type_of v))])
               else (case check_types index entry t0 ks of
                       (r, evs) \<Rightarrow> (r, Compared index key # evs))))"

text \<open>
  The outer loop, lines 102-112, from entry number \<open>index\<close> on. An entry that is not a
  dictionary has no \<^verbatim>\<open>keys\<close> method.
\<close>

fun check_entries :: "nat \<Rightarrow> json list \<Rightarrow> dict \<Rightarrow> (py_error + bool) \<times> event list" where
  "check_entries index [] t0 = (Inr True, [])"
| "check_entries index (JDict entry # rest) t0 =
     (if set (keys entry) \<noteq> set (keys t0)
      then (Inr False, [Log ERROR (keys_message index)])
      else (case check_types index entry t0 (keys t0) of
              (Inr True, evs) \<Rightarrow>
                (case check_entries (Suc index) rest t0 of (r, evs') \<Rightarrow> (r, evs @ evs'))
            | (r, evs) \<Rightarrow> (r, evs)))"
| "check_entries index (_ # rest) t0 = (Inl AttributeError, [])"

text \<open>\<^verbatim>\<open>validate_content\<close> (lines 85-115).\<close>

definition validate_content :: "json list \<Rightarrow> dict list \<Rightarrow> (py_error + bool) \<times> event list" where
  "validate_content content template =
     (if content = [] \<or> template = []
      then (Inr False, [Log ERROR ''Content or template is empty.''])
      else (case check_entries 0 content (hd template) of
              (Inr True, evs) \<Rightarrow> (Inr True, evs @ [Log INFO ''Content matches template.''])
            | (r, evs) \<Rightarrow> (r, evs)))"

text \<open>The value \<^verbatim>\<open>validate_content\<close> returns, when it returns.\<close>

definition validates :: "json list \<Rightarrow> dict list \<Rightarrow> bool" where
  "validates content template = (fst (validate_content content template) = Inr True)"

text \<open>
  What the two loops test, as predicates: the field \<open>key\<close> of \<open>entry\<close> holds a value of
  the class the template has there, and an entry is a dictionary with the template's
  key set all of whose fields do.
\<close>

definition kind_ok :: "dict \<Rightarrow> dict \<Rightarrow> string \<Rightarrow> bool" where
  "kind_ok entry t0 key =
     (case (map_of entry key, map_of t0 key) of
        (Some v, Some tv) \<Rightarrow> type_of v = type_of tv
      | _ \<Rightarrow> False)"

fun conforms :: "dict \<Rightarrow> json \<Rightarrow> bool" where
  "conforms t0 (JDict entry) =
     (set (keys entry) = set (keys t0) \<and> list_all (kind_ok entry t0) (keys t0))"
| "conforms t0 _ = False"

fun is_record :: "json \<Rightarrow> bool" where
  "is_record (JDict d) = True"
| "is_record _ = False"

section \<open>Aggregation\<close>

text \<open>
  \<^verbatim>\<open>d[k] += v\<close> on a \<^verbatim>\<open>defaultdict(int)\<close>: a key seen before keeps its place in the
  dictionary, a new key starts from \<^verbatim>\<open>int()\<close>, which is 0, and goes last.
\<close>

fun dict_add :: "(string \<times> int) list \<Rightarrow> string \<Rightarrow> int \<Rightarrow> (string \<times> int) list" where
  "dict_add [] k v = [(k, 0 + v)]"
| "dict_add ((k', v') # d) k v =
     (if k' = k then (k', v' + v) # d else (k', v') # dict_add d k v)"

text \<open>
  A value used as a dictionary key: lists and dictionaries are unhashable; numbers and
  \<^verbatim>\<open>None\<close> are hashable, with an equality across classes that is not modelled.
\<close>

fun as_key :: "json \<Rightarrow> py_error + string" where
  "as_key (JStr s) = Inr s"
| "as_key (JList xs) = Inl TypeError"
| "as_key (JDict d) = Inl TypeError"
| "as_key _ = Inl OutsideModel"

text \<open>
  A value used as an operand of integer arithmetic: \<^verbatim>\<open>True\<close> and \<^verbatim>\<open>False\<close> count
  as 1 and 0, a float gives float arithmetic, anything else is a \<^verbatim>\<open>TypeError\<close>.
\<close>

fun as_int :: "json \<Rightarrow> py_error + int" where
  "as_int (JInt i) = Inr i"
| "as_int (JBool b) = Inr (if b then 1 else 0)"
| "as_int (JFloat f) = Inl OutsideModel"
| "as_int _ = Inl TypeError"

text \<open>\<^verbatim>\<open>[entry[field] for entry in content]\<close>.\<close>

fun fields_of :: "string \<Rightarrow> json list \<Rightarrow> py_error + json list" where
  "fields_of field [] = Inr []"
| "fields_of field (entry # rest) =
     (case getitem entry field of
        Inl e \<Rightarrow> Inl e
      | Inr v \<Rightarrow> (case fields_of field rest of Inl e \<Rightarrow> Inl e | Inr vs \<Rightarrow> Inr (v # vs)))"

text \<open>\<^verbatim>\<open>Counter(xs)\<close>: every element adds one to its count, starting from \<open>acc\<close>.\<close>

fun Counter :: "json list \<Rightarrow> (string \<times> int) list \<Rightarrow> py_error + (string \<times> int) list" where
  "Counter [] acc = Inr acc"
| "Counter (x # xs) acc =
     (case as_key x of Inl e \<Rightarrow> Inl e | Inr k \<Rightarrow> Counter xs (dict_add acc k 1))"

text \<open>
  \<^verbatim>\<open>sorted(items, key=lambda x: x[1], reverse=True)\<close>: Python's sort is stable, also
  with \<^verbatim>\<open>reverse=True\<close>, so items with equal values keep their order.
\<close>

definition sorted_by_value_desc :: "(string \<times> int) list \<Rightarrow> (string \<times> int) list" where
  "sorted_by_value_desc items = sort_key (\<lambda>x. - snd x) items"

text \<open>The slice \<^verbatim>\<open>xs[:n]\<close>; a negative \<open>n\<close> counts from the end.\<close>

definition slice_to :: "'a list \<Rightarrow> int \<Rightarrow> 'a list" where
  "slice_to xs n = (if n < 0 then take (length xs - nat (- n)) xs else take (nat n) xs)"

text \<open>
  \<^verbatim>\<open>Counter.most_common(n)\<close> for an integer \<open>n\<close> is
  \<^verbatim>\<open>heapq.nlargest(n, items, key=count)\<close>: the \<open>n\<close> items with the largest counts,
  largest first, items with equal counts in dictionary order, and nothing when \<open>n \<le> 0\<close>.
\<close>

definition most_common :: "(string \<times> int) list \<Rightarrow> int \<Rightarrow> (string \<times> int) list" where
  "most_common counter n = (if n \<le> 0 then [] else take (nat n) (sorted_by_value_desc counter))"

text \<open>\<^verbatim>\<open>most_played_freq\<close> (lines 211-216).\<close>

definition most_played_freq :: "json list \<Rightarrow> int \<Rightarrow> py_error + (string \<times> int) list" where
  "most_played_freq content top_n =
     (case fields_of ''trackName'' content of
        Inl e \<Rightarrow> Inl e
      | Inr track_names \<Rightarrow>
          (case Counter track_names [] of
             Inl e \<Rightarrow> Inl e
           | Inr counter \<Rightarrow> Inr (most_common counter top_n)))"

text \<open>
  The loop of lines 222-225 and 234-237, which differ in the name of the field that
  gives the key.
\<close>

fun playtimes :: "string \<Rightarrow> json list \<Rightarrow> (string \<times> int) list \<Rightarrow> py_error + (string \<times> int) list" where
  "playtimes field [] acc = Inr acc"
| "playtimes field (entry # rest) acc =
     (case getitem entry field of
        Inl e \<Rightarrow> Inl e
      | Inr name \<Rightarrow>
          (case getitem entry ''msPlayed'' of
             Inl e \<Rightarrow> Inl e
           | Inr playtime \<Rightarrow>
               (case as_key name of
                  Inl e \<Rightarrow> Inl e
                | Inr k \<Rightarrow>
                    (case as_int playtime of
                       Inl e \<Rightarrow> Inl e
                     | Inr v \<Rightarrow> playtimes field rest (dict_add acc k v)))))"

text \<open>\<^verbatim>\<open>most_played_by_playtime\<close> (lines 219-228).\<close>

definition most_played_by_playtime :: "json list \<Rightarrow> int \<Rightarrow> py_error + (string \<times> int) list" where
  "most_played_by_playtime content top_n =
     (case playtimes ''trackName'' content [] of
        Inl e \<Rightarrow> Inl e
      | Inr track_playtimes \<Rightarrow> Inr (slice_to (sorted_by_value_desc track_playtimes) top_n))"

text \<open>\<^verbatim>\<open>top_artist_by_playtime\<close> (lines 231-240).\<close>

definition top_artist_by_playtime :: "json list \<Rightarrow> int \<Rightarrow> py_error + (string \<times> int) list" where
  "top_artist_by_playtime content top_n =
     (case playtimes ''artistName'' content [] of
        Inl e \<Rightarrow> Inl e
      | Inr artist_playtimes \<Rightarrow> Inr (slice_to (sorted_by_value_desc artist_playtimes) top_n))"

text \<open>A record of the export, as \<^verbatim>\<open>json.load\<close> builds it from an object of the file.\<close>

definition raw_record :: "string \<Rightarrow> string \<Rightarrow> string \<Rightarrow> int \<Rightarrow> json" where
  "raw_record end_time artist track ms =
     JDict [(''endTime'', JStr end_time), (''artistName'', JStr artist),
            (''trackName'', JStr track), (''msPlayed'', JInt ms)]"


text \<open>
  The measures the statements about rankings use: the names found in a field of the
  records, the number of distinct ones, and a ranking whose scores never go up.
\<close>

definition names_in :: "string \<Rightarrow> json list \<Rightarrow> string list" where
  "names_in field content =
     concat (map (\<lambda>entry. case getitem entry field of Inr (JStr s) \<Rightarrow> [s] | _ \<Rightarrow> []) content)"

definition distinct_count :: "string \<Rightarrow> json list \<Rightarrow> nat" where
  "distinct_count field content = card (set (names_in field content))"

definition non_increasing :: "(string \<times> int) list \<Rightarrow> bool" where
  "non_increasing ranking = sorted_wrt (\<lambda>a b. snd a \<ge> snd b) ranking"

section \<open>The report\<close>

definition newline :: string where
  "newline = [CHR 0x0A]"

text \<open>
  The loops of lines 269-270, 273-274 and 277-278: \<^verbatim>\<open>enumerate\<close> counts from 0 and
  the line shows \<^verbatim>\<open>index + 1\<close>; \<open>render\<close> is what the f-string does with the score.
\<close>

fun write_entries :: "(int \<Rightarrow> string) \<Rightarrow> nat \<Rightarrow> (string \<times> int) list \<Rightarrow> string" where
  "write_entries render index [] = []"
| "write_entries render index ((name, score) # rest) =
     (''  '' @ str_nat (index + 1) @ ''. '' @ name @ '' - '' @ render score @ newline)
     @ write_entries render (Suc index) rest"

text \<open>
  What lines 267-278 write to \<^verbatim>\<open>stats.txt\<close>, the file being opened for writing and so
  emptied first.
\<close>

definition report_text ::
  "(string \<times> int) list \<Rightarrow> (string \<times> int) list \<Rightarrow> (string \<times> int) list \<Rightarrow> string" where
  "report_text top_freq top_playtime top_artist =
     (''Top 10 Most Played:'' @ newline)
     @ write_entries str_int 0 top_freq
     @ (newline @ ''Top 10 Most Played by Playtime:'' @ newline)
     @ write_entries ms_to_min 0 top_playtime
     @ (newline @ ''Top 10 Artist by Playtime:'' @ newline)
     @ write_entries ms_to_min 0 top_artist"

text \<open>
  The layout the statements about the report use: an entry
  \<^verbatim>\<open>{rank}. {key} - {value}\<close>, the entry lines of a section, a text made of lines each
  ended by a newline, and the lines of a text.
\<close>

definition ranked_line :: "nat \<Rightarrow> string \<Rightarrow> string \<Rightarrow> string" where
  "ranked_line rank name val = str_nat rank @ ''. '' @ name @ '' - '' @ val"

definition section_lines :: "(int \<Rightarrow> string) \<Rightarrow> (string \<times> int) list \<Rightarrow> string list" where
  "section_lines render ranking =
     map (\<lambda>i. ''  '' @ ranked_line (i + 1) (fst (ranking ! i)) (render (snd (ranking ! i))))
       [0..<length ranking]"

definition unlines :: "string list \<Rightarrow> string" where
  "unlines ls = concat (map (\<lambda>l. l @ newline) ls)"

fun split_lines :: "string \<Rightarrow> string list" where
  "split_lines [] = [[]]"
| "split_lines (c # cs) =
     (if c = CHR 0x0A then [] # split_lines cs
      else (case split_lines cs of l # ls \<Rightarrow> (c # l) # ls | [] \<Rightarrow> [[c]]))"

section \<open>Timestamps\<close>

text \<open>
  \<^verbatim>\<open>reformat_time\<close> calls \<^verbatim>\<open>datetime.strptime\<close> with the format
  \<^verbatim>\<open>%Y-%m-%d %H:%M\<close> and \<^verbatim>\<open>strftime\<close> with \<^verbatim>\<open>%m-%d-%Y %H:%M\<close>. Both belong to
  Python's library; they are modelled here for these two formats, as CPython implements
  them. A string is a list of characters with code points below 256; among these the
  decimal digits are 0 to 9 and the whitespace characters are the twelve of \<open>is_space\<close>.

  \<^verbatim>\<open>strptime\<close> turns the format into a regular expression, in which a directive is an
  alternation of sequences of character classes, a blank is \<^verbatim>\<open>\s+\<close> and any other
  character stands for itself, and matches it at the start of the string, trying the
  alternatives from left to right and backtracking. A matcher gives the list of the ways
  it can match a prefix of the string, in the order in which it tries them, each with
  the rest of the string.
\<close>

definition digits :: string where
  "digits = ''0123456789''"

definition is_space :: "char \<Rightarrow> bool" where
  "is_space c = (c \<in> set [CHR 0x09, CHR 0x0A, CHR 0x0B, CHR 0x0C, CHR 0x0D, CHR 0x1C, CHR 0x1D,
                          CHR 0x1E, CHR 0x1F, CHR 0x20, CHR 0x85, CHR 0xA0])"

text \<open>A sequence of character classes, each given by its characters.\<close>

fun match_classes :: "string list \<Rightarrow> string \<Rightarrow> (string \<times> string) list" where
  "match_classes [] s = [([], s)]"
| "match_classes (cs # ps) [] = []"
| "match_classes (cs # ps) (c # s) =
     (if c \<in> set cs then map (\<lambda>(m, r). (c # m, r)) (match_classes ps s) else [])"

definition alternatives :: "string list list \<Rightarrow> string \<Rightarrow> (string \<times> string) list" where
  "alternatives alts s = concat (map (\<lambda>ps. match_classes ps s) alts)"

text \<open>\<^verbatim>\<open>\s+\<close> is greedy: the longest run of whitespace first, at least one character.\<close>

definition spaces_plus :: "string \<Rightarrow> (string \<times> string) list" where
  "spaces_plus s =
     map (\<lambda>n. (take n s, drop n s)) (rev [1..<Suc (length (takeWhile is_space s))])"

text \<open>
  The directives: \<^verbatim>\<open>%Y\<close> is \<^verbatim>\<open>\d\d\d\d\<close>, \<^verbatim>\<open>%m\<close> is
  \<^verbatim>\<open>1[0-2]|0[1-9]|[1-9]\<close>, \<^verbatim>\<open>%d\<close> is \<^verbatim>\<open>3[0-1]|[1-2]\d|0[1-9]|[1-9]| [1-9]\<close>,
  \<^verbatim>\<open>%H\<close> is \<^verbatim>\<open>2[0-3]|[0-1]\d|\d\<close> and \<^verbatim>\<open>%M\<close> is \<^verbatim>\<open>[0-5]\d|\d\<close>.
\<close>

definition re_Y :: "string list list" where
  "re_Y = [[digits, digits, digits, digits]]"

definition re_m :: "string list list" where
  "re_m = [[''1'', ''012''], [''0'', ''123456789''], [''123456789'']]"

definition re_d :: "string list list" where
  "re_d = [[''3'', ''01''], [''12'', digits], [''0'', ''123456789''], [''123456789''],
           ['' '', ''123456789'']]"

definition re_H :: "string list list" where
  "re_H = [[''2'', ''0123''], [''01'', digits], [digits]]"

definition re_M :: "string list list" where
  "re_M = [[''012345'', digits], [digits]]"

text \<open>
  The matches of the whole expression, in the order of the search: the five groups and
  what is left of the string. \<^verbatim>\<open>re.match\<close> returns the first one.
\<close>

definition format_regex_match ::
  "string \<Rightarrow> ((string \<times> string \<times> string \<times> string \<times> string) \<times> string) list" where
  "format_regex_match s =
     [((Y, m, d, H, M), r9).
        (Y, r1) \<leftarrow> alternatives re_Y s,
        (dash1, r2) \<leftarrow> match_classes [''-''] r1,
        (m, r3) \<leftarrow> alternatives re_m r2,
        (dash2, r4) \<leftarrow> match_classes [''-''] r3,
        (d, r5) \<leftarrow> alternatives re_d r4,
        (ws, r6) \<leftarrow> spaces_plus r5,
        (H, r7) \<leftarrow> alternatives re_H r6,
        (colon, r8) \<leftarrow> match_classes ['':''] r7,
        (M, r9) \<leftarrow> alternatives re_M r8]"

text \<open>\<^verbatim>\<open>int(s)\<close> on a group: blanks around the digits are dropped.\<close>

definition digit_value :: "char \<Rightarrow> nat" where
  "digit_value c = length (takeWhile (\<lambda>x. x \<noteq> c) digits)"

definition parse_nat :: "string \<Rightarrow> nat" where
  "parse_nat ds = foldl (\<lambda>n c. 10 * n + digit_value c) 0 ds"

definition py_int :: "string \<Rightarrow> nat" where
  "py_int s = parse_nat (dropWhile is_space s)"

text \<open>The range checks of the \<^verbatim>\<open>date\<close> constructor, which \<^verbatim>\<open>strptime\<close> calls.\<close>

definition is_leap :: "nat \<Rightarrow> bool" where
  "is_leap y = (if y mod 4 = 0 then (if y mod 100 = 0 then y mod 400 = 0 else True) else False)"

definition days_in_month :: "nat \<Rightarrow> nat \<Rightarrow> nat" where
  "days_in_month y m =
     (if m = 2 then (if is_leap y then 29 else 28)
      else if m \<in> set [4, 6, 9, 11] then 30 else 31)"

record datetime =
  year :: nat
  month :: nat
  day :: nat
  hour :: nat
  minute :: nat

definition valid_date :: "nat \<Rightarrow> nat \<Rightarrow> nat \<Rightarrow> bool" where
  "valid_date y m d = (1 \<le> y \<and> y \<le> 9999 \<and> 1 \<le> m \<and> m \<le> 12 \<and> 1 \<le> d \<and> d \<le> days_in_month y m)"

text \<open>
  \<^verbatim>\<open>strptime\<close> raises \<^verbatim>\<open>ValueError\<close> when the expression does not match, when the
  first match leaves part of the string unread, and when the fields are not a date.
\<close>

definition strptime :: "string \<Rightarrow> py_error + datetime" where
  "strptime data_string =
     (case format_regex_match data_string of
        [] \<Rightarrow> Inl ValueError
      | ((Y, m, d, H, M), rest) # others \<Rightarrow>
          if rest \<noteq> [] then Inl ValueError
          else if \<not> valid_date (py_int Y) (py_int m) (py_int d) then Inl ValueError
          else Inr \<lparr>year = py_int Y, month = py_int m, day = py_int d,
                    hour = py_int H, minute = py_int M\<rparr>)"

text \<open>
  \<^verbatim>\<open>strftime\<close> writes month, day, hour and minute with two digits. A year below 1000
  is written with or without leading zeros depending on the C library, and is left
  outside the model.
\<close>

definition zfill :: "nat \<Rightarrow> string \<Rightarrow> string" where
  "zfill width s = replicate (width - length s) (CHR ''0'') @ s"

definition strftime :: "datetime \<Rightarrow> py_error + string" where
  "strftime dt =
     (if year dt < 1000 then Inl OutsideModel
      else Inr (zfill 2 (str_nat (month dt)) @ ''-'' @ zfill 2 (str_nat (day dt)) @ ''-'' @
                str_nat (year dt) @ '' '' @
                zfill 2 (str_nat (hour dt)) @ '':'' @ zfill 2 (str_nat (minute dt))))"

text \<open>\<^verbatim>\<open>reformat_time\<close> (lines 155-165).\<close>

definition reformat_time :: "string \<Rightarrow> py_error + string" where
  "reformat_time time_str =
     (case strptime time_str of Inl e \<Rightarrow> Inl e | Inr dt \<Rightarrow> strftime dt)"

section \<open>Facts about the validator's loops\<close>

lemma check_types_all_ok:
  "list_all (kind_ok entry t0) ks \<Longrightarrow>
   check_types index entry t0 ks = (Inr True, map (Compared index) ks)"
  by (induction ks) (auto simp: kind_ok_def split: option.splits)


lemma check_types_Cons_ok:
  "kind_ok entry t0 k \<Longrightarrow>
   check_types index entry t0 (k # ks) =
     (case check_types index entry t0 ks of (r, evs) \<Rightarrow> (r, Compared index k # evs))"
  by (auto simp: kind_ok_def split: option.splits)

lemma check_types_Cons_bad:
  "\<not> kind_ok entry t0 k \<Longrightarrow> fst (check_types index entry t0 (k # ks)) \<noteq> Inr True"
  by (auto simp: kind_ok_def split: option.splits)

lemma check_types_True_iff:
  "fst (check_types index entry t0 ks) = Inr True \<longleftrightarrow> list_all (kind_ok entry t0) ks"
proof (induction ks)
  case Nil
  then show ?case by simp
next
  case (Cons k ks)
  show ?case
  proof (cases "kind_ok entry t0 k")
    case True
    with Cons show ?thesis
      by (auto simp add: check_types_Cons_ok simp del: check_types.simps split: prod.splits)
  next
    case False
    then show ?thesis using check_types_Cons_bad [OF False] by (simp del: check_types.simps)
  qed
qed

lemma map_of_keys: "k \<in> set (keys d) \<Longrightarrow> \<exists>v. map_of d k = Some v"
  by (cases "map_of d k") (simp_all add: keys_def map_of_eq_None_iff)

lemma check_types_no_error:
  "set ks \<subseteq> set (keys entry) \<Longrightarrow> set ks \<subseteq> set (keys t0) \<Longrightarrow>
   \<exists>b. fst (check_types index entry t0 ks) = Inr b"
proof (induction ks)
  case Nil
  then show ?case by auto
next
  case (Cons k ks)
  then obtain v tv where "map_of entry k = Some v" "map_of t0 k = Some tv"
    using map_of_keys [of k entry] map_of_keys [of k t0] by auto
  with Cons show ?case by (auto split: prod.splits)
qed

lemma check_entries_conforms:
  assumes "conforms t0 (JDict entry)"
  shows "check_entries index (JDict entry # rest) t0 =
     (case check_entries (Suc index) rest t0 of
        (r, evs') \<Rightarrow> (r, map (Compared index) (keys t0) @ evs'))"
proof -
  from assms have "check_types index entry t0 (keys t0) = (Inr True, map (Compared index) (keys t0))"
    by (simp add: check_types_all_ok)
  with assms show ?thesis by simp
qed

lemma check_entries_offends:
  assumes "\<not> conforms t0 (JDict entry)"
  shows "fst (check_entries index (JDict entry # rest) t0) \<noteq> Inr True"
    and "check_entries index (JDict entry # rest) t0 = check_entries index [JDict entry] t0"
proof -
  obtain r evs where ct: "check_types index entry t0 (keys t0) = (r, evs)"
    by (cases "check_types index entry t0 (keys t0)")
  show "fst (check_entries index (JDict entry # rest) t0) \<noteq> Inr True"
  proof (cases "set (keys entry) = set (keys t0)")
    case False
    then show ?thesis by simp
  next
    case True
    with assms have "\<not> list_all (kind_ok entry t0) (keys t0)" by simp
    then have "r \<noteq> Inr True" using check_types_True_iff [of index entry t0 "keys t0"] ct by simp
    then show ?thesis using True ct by (cases r) (simp_all split: bool.splits)
  qed
  show "check_entries index (JDict entry # rest) t0 = check_entries index [JDict entry] t0"
  proof (cases "set (keys entry) = set (keys t0)")
    case False
    then show ?thesis by simp
  next
    case True
    with assms have "\<not> list_all (kind_ok entry t0) (keys t0)" by simp
    then have "r \<noteq> Inr True" using check_types_True_iff [of index entry t0 "keys t0"] ct by simp
    then show ?thesis using True ct by (cases r) (simp_all split: bool.splits)
  qed
qed

lemma check_entries_True_iff:
  "fst (check_entries index content t0) = Inr True \<longleftrightarrow> list_all (conforms t0) content"
proof (induction content arbitrary: index)
  case Nil
  then show ?case by simp
next
  case (Cons e rest)
  show ?case
  proof (cases "conforms t0 e")
    case True
    then obtain entry where e: "e = JDict entry" by (cases e) simp_all
    have "fst (check_entries index (e # rest) t0) = fst (check_entries (Suc index) rest t0)"
      using check_entries_conforms [of t0 entry index rest] True
      by (simp add: e split: prod.splits)
    with Cons True show ?thesis by simp
  next
    case False
    have "fst (check_entries index (e # rest) t0) \<noteq> Inr True"
    proof (cases e)
      case (JDict entry)
      with False show ?thesis using check_entries_offends(1) [of t0 entry index rest] by simp
    qed simp_all
    with False show ?thesis by simp
  qed
qed

lemma validates_iff:
  "validates content template \<longleftrightarrow>
   content \<noteq> [] \<and> template \<noteq> [] \<and> list_all (conforms (hd template)) content"
proof (cases "content = [] \<or> template = []")
  case True
  then show ?thesis by (auto simp: validates_def validate_content_def)
next
  case False
  obtain r evs where ce: "check_entries 0 content (hd template) = (r, evs)"
    by (cases "check_entries 0 content (hd template)")
  have "fst (validate_content content template) = Inr True \<longleftrightarrow> r = Inr True"
    using False ce by (cases r; simp add: validate_content_def split: bool.splits)
  moreover have "r = Inr True \<longleftrightarrow> list_all (conforms (hd template)) content"
    using check_entries_True_iff [of 0 content "hd template"] ce by simp
  ultimately show ?thesis using False by (simp add: validates_def)
qed

section \<open>The end-to-end scenario\<close>

text \<open>
  Claim C2. On the three records (trackA, artistX, 30000 ms), (trackA, artistX, 30000 ms),
  (trackB, artistY, 600000 ms), whatever their timestamps, and with \<open>top_n = 2\<close>, the
  ranking by frequency is [(trackA, 2), (trackB, 1)], the ranking of tracks by playtime is
  [(trackB, 600000), (trackA, 60000)] and the ranking of artists by playtime is
  [(artistY, 600000), (artistX, 60000)].
\<close>

theorem scenario_rankings:
  "most_played_freq
     [raw_record e1 ''artistX'' ''trackA'' 30000, raw_record e2 ''artistX'' ''trackA'' 30000,
      raw_record e3 ''artistY'' ''trackB'' 600000] 2
     = Inr [(''trackA'', 2), (''trackB'', 1)] \<and>
   most_played_by_playtime
     [raw_record e1 ''artistX'' ''trackA'' 30000, raw_record e2 ''artistX'' ''trackA'' 30000,
      raw_record e3 ''artistY'' ''trackB'' 600000] 2
     = Inr [(''trackB'', 600000), (''trackA'', 60000)] \<and>
   top_artist_by_playtime
     [raw_record e1 ''artistX'' ''trackA'' 30000, raw_record e2 ''artistX'' ''trackA'' 30000,
      raw_record e3 ''artistY'' ''trackB'' 600000] 2
     = Inr [(''artistY'', 600000), (''artistX'', 60000)]"
  by (simp add: raw_record_def most_played_freq_def most_common_def
      most_played_by_playtime_def top_artist_by_playtime_def slice_to_def
      sorted_by_value_desc_def)

section \<open>Durations of negative length\<close>




section \<open>What validation establishes\<close>

lemma fst_validate_content:
  assumes "content \<noteq> []" "template \<noteq> []"
  shows "fst (validate_content content template) = fst (check_entries 0 content (hd template))"
proof -
  obtain r evs where ce: "check_entries 0 content (hd template) = (r, evs)"
    by (cases "check_entries 0 content (hd template)")
  show ?thesis using assms ce
    by (cases r) (simp_all add: validate_content_def split: bool.splits)
qed

lemma type_of_TStr: "type_of v = TStr \<Longrightarrow> \<exists>s. v = JStr s"
  by (cases v) simp_all

lemma type_of_TInt: "type_of v = TInt \<Longrightarrow> \<exists>i. v = JInt i"
  by (cases v) simp_all

lemma keys_TEMPLATE:
  "keys (hd TEMPLATE) = [''endTime'', ''artistName'', ''trackName'', ''msPlayed'']"
  by (simp add: TEMPLATE_def keys_def)

lemma kind_ok_TEMPLATE_str:
  assumes "kind_ok d (hd TEMPLATE) k" "k \<in> {''endTime'', ''artistName'', ''trackName''}"
  shows "\<exists>s. map_of d k = Some (JStr s)"
proof -
  from assms(2) have "map_of (hd TEMPLATE) k = Some (JStr [])"
    by (auto simp: TEMPLATE_def)
  with assms(1) obtain v where "map_of d k = Some v" "type_of v = TStr"
    by (auto simp: kind_ok_def split: option.splits)
  then show ?thesis using type_of_TStr by blast
qed

lemma kind_ok_TEMPLATE_int:
  assumes "kind_ok d (hd TEMPLATE) ''msPlayed''"
  shows "\<exists>i. map_of d ''msPlayed'' = Some (JInt i)"
proof -
  have "map_of (hd TEMPLATE) ''msPlayed'' = Some (JInt 0)"
    by (simp add: TEMPLATE_def)
  with assms obtain v where "map_of d ''msPlayed'' = Some v" "type_of v = TInt"
    by (auto simp: kind_ok_def split: option.splits)
  then show ?thesis using type_of_TInt by blast
qed

lemma four_keys_length:
  assumes "set (keys d) = {''endTime'', ''artistName'', ''trackName'', ''msPlayed''}"
    and "distinct (keys d)"
  shows "length d = 4"
proof -
  have "card (set (keys d)) = length (keys d)" using assms(2) by (rule distinct_card)
  moreover have "card {''endTime'', ''artistName'', ''trackName'', ''msPlayed''} = 4" by simp
  ultimately show ?thesis using assms(1) by (simp add: keys_def)
qed

lemma conforms_TEMPLATE:
  assumes "conforms (hd TEMPLATE) e"
  shows "\<exists>d s1 s2 s3 i. e = JDict d \<and>
     set (keys d) = {''endTime'', ''artistName'', ''trackName'', ''msPlayed''} \<and>
     map_of d ''endTime'' = Some (JStr s1) \<and> map_of d ''artistName'' = Some (JStr s2) \<and>
     map_of d ''trackName'' = Some (JStr s3) \<and> map_of d ''msPlayed'' = Some (JInt i)"
proof -
  from assms obtain d where e: "e = JDict d" by (cases e) simp_all
  from assms e have ks: "set (keys d) = {''endTime'', ''artistName'', ''trackName'', ''msPlayed''}"
    and ok: "kind_ok d (hd TEMPLATE) ''endTime''" "kind_ok d (hd TEMPLATE) ''artistName''"
      "kind_ok d (hd TEMPLATE) ''trackName''" "kind_ok d (hd TEMPLATE) ''msPlayed''"
    by (simp_all add: keys_TEMPLATE)
  from ok(1) obtain s1 where "map_of d ''endTime'' = Some (JStr s1)"
    using kind_ok_TEMPLATE_str by blast
  moreover from ok(2) obtain s2 where "map_of d ''artistName'' = Some (JStr s2)"
    using kind_ok_TEMPLATE_str by blast
  moreover from ok(3) obtain s3 where "map_of d ''trackName'' = Some (JStr s3)"
    using kind_ok_TEMPLATE_str by blast
  moreover from ok(4) obtain i where "map_of d ''msPlayed'' = Some (JInt i)"
    using kind_ok_TEMPLATE_int by blast
  ultimately show ?thesis using e ks by blast
qed

text \<open>
  Claim C1, as amended. Every record of a sequence on which \<^verbatim>\<open>validate_content\<close>
  returns true against \<^verbatim>\<open>TEMPLATE\<close> is a dictionary whose key set is exactly
  endTime, artistName, trackName, msPlayed (so it has four fields, a dictionary having
  distinct keys), with strings in the first three and an integer in msPlayed. Nothing
  is said about the sign of that integer: validation compares classes only.
\<close>

theorem validated_records_shape:
  assumes "validates content TEMPLATE" and "e \<in> set content"
  shows "\<exists>d s1 s2 s3 i. e = JDict d \<and>
     set (keys d) = {''endTime'', ''artistName'', ''trackName'', ''msPlayed''} \<and>
     map_of d ''endTime'' = Some (JStr s1) \<and> map_of d ''artistName'' = Some (JStr s2) \<and>
     map_of d ''trackName'' = Some (JStr s3) \<and> map_of d ''msPlayed'' = Some (JInt i) \<and>
     (distinct (keys d) \<longrightarrow> length d = 4)"
proof -
  from assms(1) have "list_all (conforms (hd TEMPLATE)) content"
    by (simp only: validates_iff)
  with assms(2) have "conforms (hd TEMPLATE) e"
    by (simp only: list_all_iff)
  from conforms_TEMPLATE [OF this] obtain d s1 s2 s3 i where e: "e = JDict d"
    and ks: "set (keys d) = {''endTime'', ''artistName'', ''trackName'', ''msPlayed''}"
    and f1: "map_of d ''endTime'' = Some (JStr s1)"
    and f2: "map_of d ''artistName'' = Some (JStr s2)"
    and f3: "map_of d ''trackName'' = Some (JStr s3)"
    and f4: "map_of d ''msPlayed'' = Some (JInt i)"
    by (elim exE conjE)
  have len: "distinct (keys d) \<longrightarrow> length d = 4"
    using four_keys_length [OF ks] by (rule impI)
  from e ks f1 f2 f3 f4 len show ?thesis
    by (intro exI conjI)
qed

theorem validated_records_shape_witness:
  "validates [raw_record ''2023-01-05 14:30'' ''artistX'' ''trackA'' 30000] TEMPLATE \<and>
   (\<exists>d s1 s2 s3 i. raw_record ''2023-01-05 14:30'' ''artistX'' ''trackA'' 30000 = JDict d \<and>
     set (keys d) = {''endTime'', ''artistName'', ''trackName'', ''msPlayed''} \<and>
     map_of d ''endTime'' = Some (JStr s1) \<and> map_of d ''artistName'' = Some (JStr s2) \<and>
     map_of d ''trackName'' = Some (JStr s3) \<and> map_of d ''msPlayed'' = Some (JInt i) \<and>
     length d = 4)"
proof -
  have v: "validates [raw_record ''2023-01-05 14:30'' ''artistX'' ''trackA'' 30000] TEMPLATE"
    by (simp add: validates_def validate_content_def raw_record_def TEMPLATE_def keys_def)
  have "distinct (keys [(''endTime'', JStr ''2023-01-05 14:30''), (''artistName'', JStr ''artistX''),
            (''trackName'', JStr ''trackA''), (''msPlayed'', JInt 30000)])"
    by (simp add: keys_def)
  then show ?thesis
    using v validated_records_shape [OF v, of "raw_record ''2023-01-05 14:30'' ''artistX'' ''trackA'' 30000"]
    by (auto simp: raw_record_def)
qed

text \<open>
  The claim as stated, with \<open>msPlayed \<ge> 0\<close>, fails: a record with a negative duration
  validates.
\<close>

theorem validated_negative_msPlayed:
  "validates [raw_record ''2023-01-05 14:30'' ''artistX'' ''trackA'' (- 1)] TEMPLATE \<and>
   getitem (raw_record ''2023-01-05 14:30'' ''artistX'' ''trackA'' (- 1)) ''msPlayed'' = Inr (JInt (- 1)) \<and>
   \<not> (0 :: int) \<le> - 1"
  by (simp add: validates_def validate_content_def raw_record_def TEMPLATE_def keys_def)

section \<open>Exact comparison of classes\<close>

lemma check_entries_single:
  assumes "set (keys entry) = set (keys t0)"
  shows "\<exists>b. fst (check_entries index [JDict entry] t0) = Inr b"
proof -
  obtain r evs where ct: "check_types index entry t0 (keys t0) = (r, evs)"
    by (cases "check_types index entry t0 (keys t0)")
  from assms have "set (keys t0) \<subseteq> set (keys entry)" "set (keys t0) \<subseteq> set (keys t0)"
    by simp_all
  from check_types_no_error [OF this, of index] obtain b
    where "fst (check_types index entry t0 (keys t0)) = Inr b" by blast
  with ct have r: "r = Inr b" by simp
  show ?thesis using assms ct r by (cases b) auto
qed

lemma check_entries_no_error:
  "list_all is_record content \<Longrightarrow> \<exists>b. fst (check_entries index content t0) = Inr b"
proof (induction content arbitrary: index)
  case Nil
  show ?case by auto
next
  case (Cons e rest)
  then obtain entry where e: "e = JDict entry" by (cases e) simp_all
  from Cons have IH: "\<exists>b. fst (check_entries (Suc index) rest t0) = Inr b" by simp
  show ?case
  proof (cases "conforms t0 e")
    case True
    have "fst (check_entries index (e # rest) t0) = fst (check_entries (Suc index) rest t0)"
      using check_entries_conforms [of t0 entry index rest] True
      by (simp add: e split: prod.splits)
    with IH show ?thesis by simp
  next
    case False
    then have same: "check_entries index (e # rest) t0 = check_entries index [JDict entry] t0"
      using check_entries_offends(2) [of t0 entry index rest] by (simp add: e)
    show ?thesis
    proof (cases "set (keys entry) = set (keys t0)")
      case True
      from check_entries_single [OF this] same show ?thesis by simp
    next
      case False
      then show ?thesis by (auto simp: e)
    qed
  qed
qed

text \<open>
  Claim C7. The comparison of line 108 is between the classes themselves: on every
  sequence of records (JSON objects) one of which holds \<^verbatim>\<open>true\<close> or \<^verbatim>\<open>false\<close> in
  msPlayed, \<^verbatim>\<open>validate_content\<close> returns false against \<^verbatim>\<open>TEMPLATE\<close>, the class
  \<^verbatim>\<open>bool\<close> not being the class \<^verbatim>\<open>int\<close> of the template.
\<close>

theorem boolean_msPlayed_rejected:
  assumes "list_all is_record content"
    and "JDict d \<in> set content"
    and "map_of d ''msPlayed'' = Some (JBool b)"
  shows "fst (validate_content content TEMPLATE) = Inr False"
proof -
  from assms(2) have ne: "content \<noteq> []" by auto
  have tne: "TEMPLATE \<noteq> []" by (simp add: TEMPLATE_def)
  from check_entries_no_error [OF assms(1)] obtain r
    where r: "fst (check_entries 0 content (hd TEMPLATE)) = Inr r" by blast
  have "\<not> r"
  proof
    assume r
    with r have "list_all (conforms (hd TEMPLATE)) content"
      by (simp add: check_entries_True_iff)
    with assms(2) have "conforms (hd TEMPLATE) (JDict d)"
      by (simp only: list_all_iff)
    then have "kind_ok d (hd TEMPLATE) ''msPlayed''"
      by (simp add: keys_TEMPLATE)
    from kind_ok_TEMPLATE_int [OF this] assms(3) show False by simp
  qed
  with r show ?thesis
    by (simp add: fst_validate_content [OF ne tne])
qed

theorem boolean_msPlayed_rejected_witness:
  "fst (validate_content
     [raw_record ''2023-01-05 14:30'' ''artistX'' ''trackA'' 30000,
      JDict [(''endTime'', JStr ''2023-01-05 14:33''), (''artistName'', JStr ''artistX''),
             (''trackName'', JStr ''trackA''), (''msPlayed'', JBool True)]] TEMPLATE) = Inr False"
proof -
  let ?d = "[(''endTime'', JStr ''2023-01-05 14:33''), (''artistName'', JStr ''artistX''),
             (''trackName'', JStr ''trackA''), (''msPlayed'', JBool True)]"
  let ?c = "[raw_record ''2023-01-05 14:30'' ''artistX'' ''trackA'' 30000, JDict ?d]"
  have 1: "list_all is_record ?c" by (simp add: raw_record_def)
  have 2: "JDict ?d \<in> set ?c" by simp
  have 3: "map_of ?d ''msPlayed'' = Some (JBool True)" by simp
  show ?thesis by (rule boolean_msPlayed_rejected [OF 1 2 3])
qed

section \<open>Where the validator stops\<close>












section \<open>Length and order of the rankings\<close>

lemma keys_dict_add:
  "map fst (dict_add d k v) = (if k \<in> set (map fst d) then map fst d else map fst d @ [k])"
proof (induction d)
  case Nil
  show ?case by simp
next
  case (Cons p d)
  obtain k' v' where p: "p = (k', v')" by (cases p)
  show ?case
  proof (cases "k' = k")
    case True
    then show ?thesis by (simp add: p)
  next
    case False
    with Cons show ?thesis by (simp add: p)
  qed
qed

lemma distinct_dict_add: "distinct (map fst d) \<Longrightarrow> distinct (map fst (dict_add d k v))"
  by (simp add: keys_dict_add)

lemma set_dict_add: "set (map fst (dict_add d k v)) = insert k (set (map fst d))"
  by (auto simp: keys_dict_add)

lemma Counter_strings:
  "\<exists>d. Counter (map JStr names) acc = Inr d \<and>
     set (map fst d) = set (map fst acc) \<union> set names \<and>
     (distinct (map fst acc) \<longrightarrow> distinct (map fst d))"
proof (induction names arbitrary: acc)
  case Nil
  show ?case by simp
next
  case (Cons n names)
  from Cons [of "dict_add acc n 1"] obtain d
    where "Counter (map JStr names) (dict_add acc n 1) = Inr d"
      and "set (map fst d) = set (map fst (dict_add acc n 1)) \<union> set names"
      and "distinct (map fst (dict_add acc n 1)) \<longrightarrow> distinct (map fst d)"
    by blast
  then show ?case
    using set_dict_add [of acc n 1] distinct_dict_add [of acc n 1] by auto
qed

lemma conforms_getitem_str:
  assumes "conforms (hd TEMPLATE) e" "field \<in> {''endTime'', ''artistName'', ''trackName''}"
  shows "\<exists>s. getitem e field = Inr (JStr s)"
proof -
  from conforms_TEMPLATE [OF assms(1)] obtain d s1 s2 s3 i where e: "e = JDict d"
    and ks: "set (keys d) = {''endTime'', ''artistName'', ''trackName'', ''msPlayed''}"
    and f1: "map_of d ''endTime'' = Some (JStr s1)"
    and f2: "map_of d ''artistName'' = Some (JStr s2)"
    and f3: "map_of d ''trackName'' = Some (JStr s3)"
    and f4: "map_of d ''msPlayed'' = Some (JInt i)"
    by (elim exE conjE)
  from assms(2) have "field = ''endTime'' \<or> field = ''artistName'' \<or> field = ''trackName''"
    by simp
  then show ?thesis
  proof (elim disjE)
    assume "field = ''endTime''"
    with e f1 show ?thesis by simp
  next
    assume "field = ''artistName''"
    with e f2 show ?thesis by simp
  next
    assume "field = ''trackName''"
    with e f3 show ?thesis by simp
  qed
qed

lemma conforms_getitem_int:
  assumes "conforms (hd TEMPLATE) e"
  shows "\<exists>i. getitem e ''msPlayed'' = Inr (JInt i)"
proof -
  from conforms_TEMPLATE [OF assms(1)] obtain d s1 s2 s3 i where e: "e = JDict d"
    and ks: "set (keys d) = {''endTime'', ''artistName'', ''trackName'', ''msPlayed''}"
    and f1: "map_of d ''endTime'' = Some (JStr s1)"
    and f2: "map_of d ''artistName'' = Some (JStr s2)"
    and f3: "map_of d ''trackName'' = Some (JStr s3)"
    and f4: "map_of d ''msPlayed'' = Some (JInt i)"
    by (elim exE conjE)
  from e f4 show ?thesis by simp
qed

lemma fields_of_conforming:
  assumes "field \<in> {''endTime'', ''artistName'', ''trackName''}"
  shows "list_all (conforms (hd TEMPLATE)) content \<Longrightarrow>
    fields_of field content = Inr (map JStr (names_in field content))"
proof (induction content)
  case Nil
  show ?case by (simp add: names_in_def)
next
  case (Cons e content)
  then have "conforms (hd TEMPLATE) e" by simp
  from conforms_getitem_str [OF this assms] obtain s where "getitem e field = Inr (JStr s)"
    by blast
  with Cons show ?case by (simp add: names_in_def)
qed

lemma playtimes_conforming:
  assumes "field \<in> {''endTime'', ''artistName'', ''trackName''}"
  shows "list_all (conforms (hd TEMPLATE)) content \<Longrightarrow>
    \<exists>d. playtimes field content acc = Inr d \<and>
      set (map fst d) = set (map fst acc) \<union> set (names_in field content) \<and>
      (distinct (map fst acc) \<longrightarrow> distinct (map fst d))"
proof (induction content arbitrary: acc)
  case Nil
  show ?case by (simp add: names_in_def)
next
  case (Cons e content)
  then have c: "conforms (hd TEMPLATE) e" and rest: "list_all (conforms (hd TEMPLATE)) content"
    by simp_all
  from conforms_getitem_str [OF c assms] obtain s where s: "getitem e field = Inr (JStr s)"
    by blast
  from conforms_getitem_int [OF c] obtain i where i: "getitem e ''msPlayed'' = Inr (JInt i)"
    by blast
  from Cons.IH [OF rest, of "dict_add acc s i"] obtain d
    where "playtimes field content (dict_add acc s i) = Inr d"
      and "set (map fst d) = set (map fst (dict_add acc s i)) \<union> set (names_in field content)"
      and "distinct (map fst (dict_add acc s i)) \<longrightarrow> distinct (map fst d)"
    by blast
  with s i show ?case
    using set_dict_add [of acc s i] distinct_dict_add [of acc s i]
    by (auto simp: names_in_def)
qed

lemma length_distinct_keys:
  assumes "set (map fst d) = set names" "distinct (map fst d)"
  shows "length d = card (set names)"
proof -
  have "card (set (map fst d)) = length (map fst d)" using assms(2) by (rule distinct_card)
  with assms(1) show ?thesis by simp
qed

lemma non_increasing_sorted: "non_increasing (sorted_by_value_desc items)"
proof -
  have "sorted (map (\<lambda>x. - snd x) (sort_key (\<lambda>x. - snd x) items))" by (rule sorted_sort_key)
  then show ?thesis
    by (simp add: non_increasing_def sorted_by_value_desc_def sorted_wrt_map)
qed

lemma non_increasing_take: "non_increasing xs \<Longrightarrow> non_increasing (take n xs)"
  unfolding non_increasing_def by (rule sorted_wrt_take)

lemma length_sorted_by_value_desc: "length (sorted_by_value_desc items) = length items"
  by (simp add: sorted_by_value_desc_def)


lemma length_take_int:
  assumes "1 \<le> n"
  shows "int (length (take (nat n) xs)) = min n (int (length xs))"
proof -
  have "length (take (nat n) xs) = min (length xs) (nat n)" by simp
  then show ?thesis using assms by linarith
qed

lemma ranking_of_dict:
  assumes "set (map fst d) = set (names_in field content)" "distinct (map fst d)" "1 \<le> n"
  shows "int (length (take (nat n) (sorted_by_value_desc d))) =
           min n (int (distinct_count field content))"
    and "non_increasing (take (nat n) (sorted_by_value_desc d))"
proof -
  have "length (sorted_by_value_desc d) = distinct_count field content"
    using length_distinct_keys [OF assms(1,2)]
    by (simp add: length_sorted_by_value_desc distinct_count_def)
  with length_take_int [OF assms(3), of "sorted_by_value_desc d"]
  show "int (length (take (nat n) (sorted_by_value_desc d))) =
           min n (int (distinct_count field content))" by simp
  show "non_increasing (take (nat n) (sorted_by_value_desc d))"
    by (rule non_increasing_take [OF non_increasing_sorted])
qed

lemma most_played_freq_ranking:
  assumes "list_all (conforms (hd TEMPLATE)) content" "1 \<le> top_n"
  shows "\<exists>r. most_played_freq content top_n = Inr r \<and>
     int (length r) = min top_n (int (distinct_count ''trackName'' content)) \<and> non_increasing r"
proof -
  have f: "fields_of ''trackName'' content = Inr (map JStr (names_in ''trackName'' content))"
    by (rule fields_of_conforming [OF _ assms(1)]) simp
  from Counter_strings [of "names_in ''trackName'' content" "[]"] obtain d
    where c: "Counter (map JStr (names_in ''trackName'' content)) [] = Inr d"
      and ks: "set (map fst d) = set (names_in ''trackName'' content)"
      and dist: "distinct (map fst d)"
    by auto
  from assms(2) have r: "most_played_freq content top_n = Inr (take (nat top_n) (sorted_by_value_desc d))"
    by (simp add: most_played_freq_def f c most_common_def)
  from ranking_of_dict [OF ks dist assms(2)] r show ?thesis by simp
qed

lemma playtime_ranking:
  assumes "list_all (conforms (hd TEMPLATE)) content" "1 \<le> top_n"
    and "field \<in> {''endTime'', ''artistName'', ''trackName''}"
  shows "\<exists>d. playtimes field content [] = Inr d \<and>
     int (length (slice_to (sorted_by_value_desc d) top_n)) =
       min top_n (int (distinct_count field content)) \<and>
     non_increasing (slice_to (sorted_by_value_desc d) top_n)"
proof -
  from playtimes_conforming [OF assms(3) assms(1), of "[]"] obtain d
    where p: "playtimes field content [] = Inr d"
      and ks: "set (map fst d) = set (names_in field content)"
      and dist: "distinct (map fst d)"
    by auto
  from assms(2) have "slice_to (sorted_by_value_desc d) top_n = take (nat top_n) (sorted_by_value_desc d)"
    by (simp add: slice_to_def)
  with ranking_of_dict [OF ks dist assms(2)] p show ?thesis by simp
qed

text \<open>
  Claim C6. On a validated sequence of records (which is not empty) and for \<open>top_n \<ge> 1\<close>,
  each of the three aggregation functions returns a ranking, without raising; its length
  is the minimum of \<open>top_n\<close> and the number of distinct track names (for the two rankings
  of tracks) or artist names (for the ranking of artists) in the input, and its scores
  are non-increasing from the first entry to the last.
\<close>

theorem rankings_bounded_and_ordered:
  assumes "validates content TEMPLATE" and "1 \<le> top_n"
  shows "\<exists>freq tracks artists.
     most_played_freq content top_n = Inr freq \<and>
     most_played_by_playtime content top_n = Inr tracks \<and>
     top_artist_by_playtime content top_n = Inr artists \<and>
     int (length freq) = min top_n (int (distinct_count ''trackName'' content)) \<and>
     int (length tracks) = min top_n (int (distinct_count ''trackName'' content)) \<and>
     int (length artists) = min top_n (int (distinct_count ''artistName'' content)) \<and>
     non_increasing freq \<and> non_increasing tracks \<and> non_increasing artists"
proof -
  from assms(1) have c: "list_all (conforms (hd TEMPLATE)) content"
    by (simp only: validates_iff)
  from most_played_freq_ranking [OF c assms(2)] obtain freq
    where 1: "most_played_freq content top_n = Inr freq"
      "int (length freq) = min top_n (int (distinct_count ''trackName'' content))"
      "non_increasing freq"
    by (elim exE conjE)
  from playtime_ranking [OF c assms(2), of "''trackName''"] obtain d1
    where 2: "playtimes ''trackName'' content [] = Inr d1"
      "int (length (slice_to (sorted_by_value_desc d1) top_n)) =
         min top_n (int (distinct_count ''trackName'' content))"
      "non_increasing (slice_to (sorted_by_value_desc d1) top_n)"
    by auto
  from playtime_ranking [OF c assms(2), of "''artistName''"] obtain d2
    where 3: "playtimes ''artistName'' content [] = Inr d2"
      "int (length (slice_to (sorted_by_value_desc d2) top_n)) =
         min top_n (int (distinct_count ''artistName'' content))"
      "non_increasing (slice_to (sorted_by_value_desc d2) top_n)"
    by auto
  have t: "most_played_by_playtime content top_n = Inr (slice_to (sorted_by_value_desc d1) top_n)"
    by (simp add: most_played_by_playtime_def 2(1))
  have a: "top_artist_by_playtime content top_n = Inr (slice_to (sorted_by_value_desc d2) top_n)"
    by (simp add: top_artist_by_playtime_def 3(1))
  from 1 t 2(2,3) a 3(2,3) show ?thesis by (intro exI conjI)
qed


theorem rankings_bounded_and_ordered_witness:
  "validates [raw_record ''2023-01-05 14:30'' ''artistX'' ''trackA'' 30000,
              raw_record ''2023-01-05 14:31'' ''artistX'' ''trackA'' 30000,
              raw_record ''2023-01-05 14:41'' ''artistY'' ''trackB'' 600000] TEMPLATE \<and>
   distinct_count ''trackName''
             [raw_record ''2023-01-05 14:30'' ''artistX'' ''trackA'' 30000,
              raw_record ''2023-01-05 14:31'' ''artistX'' ''trackA'' 30000,
              raw_record ''2023-01-05 14:41'' ''artistY'' ''trackB'' 600000] = 2 \<and>
   most_played_freq
             [raw_record ''2023-01-05 14:30'' ''artistX'' ''trackA'' 30000,
              raw_record ''2023-01-05 14:31'' ''artistX'' ''trackA'' 30000,
              raw_record ''2023-01-05 14:41'' ''artistY'' ''trackB'' 600000] 1 = Inr [(''trackA'', 2)] \<and>
   (\<exists>freq tracks artists.
     most_played_freq
             [raw_record ''2023-01-05 14:30'' ''artistX'' ''trackA'' 30000,
              raw_record ''2023-01-05 14:31'' ''artistX'' ''trackA'' 30000,
              raw_record ''2023-01-05 14:41'' ''artistY'' ''trackB'' 600000] 1 = Inr freq \<and>
     most_played_by_playtime
             [raw_record ''2023-01-05 14:30'' ''artistX'' ''trackA'' 30000,
              raw_record ''2023-01-05 14:31'' ''artistX'' ''trackA'' 30000,
              raw_record ''2023-01-05 14:41'' ''artistY'' ''trackB'' 600000] 1 = Inr tracks \<and>
     top_artist_by_playtime
             [raw_record ''2023-01-05 14:30'' ''artistX'' ''trackA'' 30000,
              raw_record ''2023-01-05 14:31'' ''artistX'' ''trackA'' 30000,
              raw_record ''2023-01-05 14:41'' ''artistY'' ''trackB'' 600000] 1 = Inr artists \<and>
     length freq = 1 \<and> length tracks = 1 \<and> length artists = 1 \<and>
     non_increasing freq \<and> non_increasing tracks \<and> non_increasing artists)"
proof -
  let ?c = "[raw_record ''2023-01-05 14:30'' ''artistX'' ''trackA'' 30000,
              raw_record ''2023-01-05 14:31'' ''artistX'' ''trackA'' 30000,
              raw_record ''2023-01-05 14:41'' ''artistY'' ''trackB'' 600000]"
  have v: "validates ?c TEMPLATE"
    by (simp add: validates_def validate_content_def raw_record_def TEMPLATE_def keys_def)
  have le: "(1 :: int) \<le> 1" by simp
  have dt: "distinct_count ''trackName'' ?c = 2"
    by (simp add: distinct_count_def names_in_def raw_record_def)
  have da: "distinct_count ''artistName'' ?c = 2"
    by (simp add: distinct_count_def names_in_def raw_record_def)
  have f: "most_played_freq ?c 1 = Inr [(''trackA'', 2)]"
    by (simp add: raw_record_def most_played_freq_def most_common_def sorted_by_value_desc_def)
  from rankings_bounded_and_ordered [OF v le] obtain freq tracks artists where
     r: "most_played_freq ?c 1 = Inr freq" "most_played_by_playtime ?c 1 = Inr tracks"
     "top_artist_by_playtime ?c 1 = Inr artists"
     "int (length freq) = min 1 (int (distinct_count ''trackName'' ?c))"
     "int (length tracks) = min 1 (int (distinct_count ''trackName'' ?c))"
     "int (length artists) = min 1 (int (distinct_count ''artistName'' ?c))"
     "non_increasing freq" "non_increasing tracks" "non_increasing artists"
    by (elim exE conjE)
  from r(4) dt have l1: "length freq = 1" by simp
  from r(5) dt have l2: "length tracks = 1" by simp
  from r(6) da have l3: "length artists = 1" by simp
  from v dt f r(1,2,3) l1 l2 l3 r(7,8,9) show ?thesis by (intro conjI exI)
qed

section \<open>The layout of the report\<close>

lemma write_entries_lines:
  "write_entries render index ranking =
     unlines (map (\<lambda>i. ''  '' @ ranked_line (index + i + 1) (fst (ranking ! i)) (render (snd (ranking ! i))))
       [0..<length ranking])"
proof (induction ranking arbitrary: index)
  case Nil
  show ?case by (simp add: unlines_def)
next
  case (Cons p ranking)
  obtain name score where p: "p = (name, score)" by (cases p)
  show ?case
    unfolding p
    by (simp add: Cons.IH unlines_def ranked_line_def map_upt_Suc del: upt_Suc)
qed

text \<open>
  Claim C9, as amended. For every three rankings the report is made of three sections in
  this order: the line \<^verbatim>\<open>Top 10 Most Played:\<close> and the ranking by count, an empty line,
  the line \<^verbatim>\<open>Top 10 Most Played by Playtime:\<close> and the ranking of tracks, an empty
  line, the line \<^verbatim>\<open>Top 10 Artist by Playtime:\<close> and the ranking of artists, the
  playtimes written by \<^verbatim>\<open>ms_to_min\<close>. The entry at position \<open>i\<close> of a ranking (from 0)
  gives the line made of two spaces and then \<^verbatim>\<open>{rank}. {key} - {value}\<close> with rank
  \<open>i + 1\<close>.
\<close>

theorem report_layout:
  "report_text top_freq top_playtime top_artist =
     unlines ([''Top 10 Most Played:''] @ section_lines str_int top_freq @
              ['''', ''Top 10 Most Played by Playtime:''] @ section_lines ms_to_min top_playtime @
              ['''', ''Top 10 Artist by Playtime:''] @ section_lines ms_to_min top_artist)"
  using write_entries_lines [of str_int 0 top_freq]
    write_entries_lines [of ms_to_min 0 top_playtime]
    write_entries_lines [of ms_to_min 0 top_artist]
  by (simp add: report_text_def section_lines_def unlines_def)


text \<open>
  The claim as stated has each entry line equal to \<^verbatim>\<open>{rank}. {key} - {value}\<close>; the
  line the code writes starts with two spaces, so that text is not a line of the report.
\<close>

theorem report_line_indented:
  "split_lines (report_text [(''trackA'', 2)] [] []) =
     [''Top 10 Most Played:'', ''  1. trackA - 2'', [], ''Top 10 Most Played by Playtime:'', [],
      ''Top 10 Artist by Playtime:'', []] \<and>
   ranked_line 1 ''trackA'' (str_int 2) = ''1. trackA - 2'' \<and>
   ranked_line 1 ''trackA'' (str_int 2) \<notin> set (split_lines (report_text [(''trackA'', 2)] [] []))"
  by (simp add: report_text_def newline_def ranked_line_def str_int_def str_nat.simps digit_char_def)

end
